theory Spec2Isabelle
  imports Main "HOL-Library.Sublist"
begin

section \<open>Text primitives of the host language\<close>

text \<open>
  The program is a Python script that works on \<^verbatim>\<open>str\<close> values. A text is modelled as a
  \<^typ>\<open>string\<close>; a \<^typ>\<open>char\<close> stands for one code point in the range 0..255. The
  functions below are the \<^verbatim>\<open>str\<close> methods the script calls.
\<close>

text \<open>
  \<^verbatim>\<open>str.isspace\<close> on one character: the code points below 256 that Python counts as
  whitespace (tab, line feed, vertical tab, form feed, carriage return, the four
  separators 0x1C..0x1F, space, next line 0x85 and no-break space 0xA0).
\<close>

definition isspace :: "char \<Rightarrow> bool" where
  "isspace c \<longleftrightarrow> c \<in> set [CHR 0x09, CHR 0x0A, CHR 0x0B, CHR 0x0C, CHR 0x0D,
     CHR 0x1C, CHR 0x1D, CHR 0x1E, CHR 0x1F, CHR 0x20, CHR 0x85, CHR 0xA0]"

definition lstrip :: "string \<Rightarrow> string" where
  "lstrip s = dropWhile isspace s"

definition rstrip :: "string \<Rightarrow> string" where
  "rstrip s = rev (dropWhile isspace (rev s))"

text \<open>\<^verbatim>\<open>s.strip()\<close>: the text without its leading and trailing whitespace.\<close>

definition strip :: "string \<Rightarrow> string" where
  "strip s = rstrip (lstrip s)"

text \<open>
  \<^verbatim>\<open>s.split(sep)\<close> for a non-empty separator: the pieces between the occurrences of
  \<open>sep\<close>, found from left to right without overlap. The script calls it with the
  literals \<^verbatim>\<open>'---'\<close> and \<^verbatim>\<open>'\n'\<close> only (Python rejects an empty separator; the
  model then returns the characters one by one and is not used that way).
\<close>

fun split_str :: "string \<Rightarrow> string \<Rightarrow> string list" where
  "split_str sep [] = [[]]"
| "split_str sep (c # cs) =
     (if sep \<noteq> [] \<and> prefix sep (c # cs)
      then [] # split_str sep (drop (length sep) (c # cs))
      else (case split_str sep cs of
              [] \<Rightarrow> [[c]]
            | b # bs \<Rightarrow> (c # b) # bs))"

text \<open>\<^verbatim>\<open>sep.join(xs)\<close>.\<close>

fun join_str :: "string \<Rightarrow> string list \<Rightarrow> string" where
  "join_str sep [] = []"
| "join_str sep [x] = x"
| "join_str sep (x # y # ys) = x @ sep @ join_str sep (y # ys)"

text \<open>
  \<^verbatim>\<open>s.replace(old, new)\<close> for a non-empty \<open>old\<close>: every occurrence of \<open>old\<close>, found
  from left to right without overlap, is replaced; the replaced text is not scanned
  again. (For an empty \<open>old\<close> Python puts \<open>new\<close> around every character.)
\<close>

fun replace_str :: "string \<Rightarrow> string \<Rightarrow> string \<Rightarrow> string" where
  "replace_str [] old new = (if old = [] then new else [])"
| "replace_str (c # cs) old new =
     (if old = [] then new @ c # replace_str cs old new
      else if prefix old (c # cs)
      then new @ replace_str (drop (length old) (c # cs)) old new
      else c # replace_str cs old new)"

section \<open>Turns\<close>

text \<open>
  A message is the dictionary \<^verbatim>\<open>{"role": ..., "content": ...}\<close> of the script; the role
  is one of the strings \<^verbatim>\<open>"user"\<close> and \<^verbatim>\<open>"assistant"\<close>.
\<close>

record message =
  role :: string
  content :: string

definition control_markers :: "string list" where
  "control_markers = [''cc'', ''c0'', ''c1'', ''c2'', ''c3'', ''c4'', ''c5'', ''c6'', ''c7'']"

definition filter_messages :: "message list \<Rightarrow> message list" where
  "filter_messages messages =
     [msg. msg \<leftarrow> messages, strip (content msg) \<notin> set control_markers]"

text \<open>
  The loop of \<^verbatim>\<open>parse_markdown_file\<close> over \<^verbatim>\<open>enumerate(blocks)\<close>, started at index
  \<open>i\<close>: a block that is empty after trimming adds nothing, another one adds a message
  whose role comes from the parity of its index.
\<close>

fun block_messages :: "nat \<Rightarrow> string list \<Rightarrow> message list" where
  "block_messages i [] = []"
| "block_messages i (block # blocks) =
     (if strip block \<noteq> []
      then \<lparr>role = (if i mod 2 = 0 then ''user'' else ''assistant''), content = strip block\<rparr>
             # block_messages (Suc i) blocks
      else block_messages (Suc i) blocks)"

text \<open>The body of \<^verbatim>\<open>parse_markdown_file\<close> once the file has been read.\<close>

definition parse_content :: "string \<Rightarrow> message list" where
  "parse_content text =
     (let blocks = split_str ''---'' text in
      if length blocks = 1
      then [\<lparr>role = ''user'', content = strip text\<rparr>]
      else block_messages 0 blocks)"

section \<open>The rewrites of the note file\<close>

text \<open>
  \<^verbatim>\<open>process_markdown\<close> rewrites the file in three places. Each rewrite reads the whole
  content and writes two pieces of text; the functions below give the new content as a
  function of the old one.
\<close>

definition default_model :: string where
  "default_model = ''claude-3-7-sonnet-latest''"

definition system_message :: string where
  "system_message = ''You help with whatever is asked to the best of your ability.''"

text \<open>
  The first piece written when the call is announced: the lines of the trimmed content
  that are not a control marker, joined again.
\<close>

definition strip_control_lines :: "string \<Rightarrow> string" where
  "strip_control_lines txt =
     join_str ''\<newline>''
       [line. line \<leftarrow> split_str ''\<newline>'' (strip txt),
              strip line \<notin> set control_markers]"

text \<open>The second piece, \<^verbatim>\<open>f"\n\n---\n\nCalling {model}...\n"\<close>.\<close>

definition calling_block :: "string \<Rightarrow> string" where
  "calling_block model =
     ''\<newline>\<newline>---\<newline>\<newline>Calling '' @ model @ ''...\<newline>''"

text \<open>The text that both resolving rewrites look for, \<^verbatim>\<open>f"\n\n---\n\nCalling {model}..."\<close>.\<close>

definition calling_marker :: "string \<Rightarrow> string" where
  "calling_marker model =
     ''\<newline>\<newline>---\<newline>\<newline>Calling '' @ model @ ''...''"

definition response_block :: "string \<Rightarrow> string" where
  "response_block response =
     ''\<newline>\<newline>---\<newline>\<newline>'' @ response @ ''\<newline>\<newline>---\<newline>\<newline>''"

definition error_block :: "string \<Rightarrow> string" where
  "error_block e =
     ''\<newline>\<newline>---\<newline>\<newline>Error: '' @ e @ ''\<newline>\<newline>---\<newline>\<newline>''"

text \<open>The file content after the placeholder has been inserted (source lines 62 to 69).\<close>

definition insert_placeholder :: "string \<Rightarrow> string \<Rightarrow> string" where
  "insert_placeholder txt model = strip_control_lines txt @ calling_block model"

text \<open>The file content after a response has been written (source lines 88 to 93).\<close>

definition resolveSuccess :: "string \<Rightarrow> string \<Rightarrow> string \<Rightarrow> string" where
  "resolveSuccess txt model response =
     replace_str (strip txt) (calling_marker model) [] @ response_block response"

text \<open>The file content after an error has been written (source lines 99 to 105).\<close>

definition resolveFailure :: "string \<Rightarrow> string \<Rightarrow> string \<Rightarrow> string" where
  "resolveFailure txt model e =
     replace_str (strip txt) (calling_marker model) [] @ error_block e"

section \<open>Files, the chat client and the driver\<close>

text \<open>
  An exception is modelled by the text that \<^verbatim>\<open>str(e)\<close> gives: the script catches
  \<^verbatim>\<open>Exception\<close> and uses nothing else of it.
\<close>

datatype exn = Exception string

text \<open>
  A path names a file that cannot be opened (with the message of the error), one that
  can be read but not opened for update (stored text, message), or an ordinary file
  (stored text).
\<close>

datatype file_state = Unreadable string | ReadOnly string string | Writable string

text \<open>
  What the script lets the outside see besides the file: lines printed, and log records
  of level warning and error. Records of level info and debug are left out.
\<close>

datatype event = Print string | LogWarning string | LogError string

text \<open>
  The world: the files by path, every \<^verbatim>\<open>file.write\<close> call so far (path, text written)
  and the events so far.
\<close>

record world =
  files :: "string \<Rightarrow> file_state"
  writes :: "(string \<times> string) list"
  out :: "event list"

text \<open>
  The chat client is a collaborator outside the repository: constructing it may raise
  (\<open>Some\<close> the message), and \<^verbatim>\<open>send_message(messages, model, max_completion_tokens,
  system_message)\<close> returns the response text or raises.
\<close>

record chat_api =
  init_failure :: "string option"
  send_message :: "message list \<Rightarrow> string \<Rightarrow> nat \<Rightarrow> string \<Rightarrow> exn + string"

text \<open>
  The script opens the file in text mode without a \<^verbatim>\<open>newline\<close> argument. A read then
  returns every line ending \<^verbatim>\<open>\r\n\<close> and every other \<^verbatim>\<open>\r\<close> as \<^verbatim>\<open>\n\<close>. A write
  stores the text as it is (the line separator of the system is taken to be \<^verbatim>\<open>\n\<close>).
\<close>

fun universal_newlines :: "string \<Rightarrow> string" where
  "universal_newlines [] = []"
| "universal_newlines [c] = [if c = CHR 0x0D then CHR ''\<newline>'' else c]"
| "universal_newlines (c # d # ds) =
     (if c = CHR 0x0D
      then (if d = CHR ''\<newline>''
            then CHR ''\<newline>'' # universal_newlines ds
            else CHR ''\<newline>'' # universal_newlines (d # ds))
      else c # universal_newlines (d # ds))"

text \<open>\<^verbatim>\<open>open(file_path, 'r')\<close> followed by \<^verbatim>\<open>file.read()\<close>.\<close>

definition read_file :: "world \<Rightarrow> string \<Rightarrow> exn + string" where
  "read_file w file_path =
     (case files w file_path of
        Unreadable e \<Rightarrow> Inl (Exception e)
      | ReadOnly c e \<Rightarrow> Inr (universal_newlines c)
      | Writable c \<Rightarrow> Inr (universal_newlines c))"

text \<open>
  A block \<^verbatim>\<open>with open(file_path, 'r+')\<close> that reads the content \<open>txt\<close>, truncates the
  file and writes the pieces \<open>pieces txt\<close> one after the other.
\<close>

definition rewrite_file :: "world \<Rightarrow> string \<Rightarrow> (string \<Rightarrow> string list) \<Rightarrow> exn + world" where
  "rewrite_file w file_path pieces =
     (case files w file_path of
        Unreadable e \<Rightarrow> Inl (Exception e)
      | ReadOnly c e \<Rightarrow> Inl (Exception e)
      | Writable c \<Rightarrow>
          Inr (w\<lparr>files := (files w)(file_path :=
                   Writable (concat (pieces (universal_newlines c)))),
                 writes := writes w @ map (Pair file_path) (pieces (universal_newlines c))\<rparr>))"

definition parse_markdown_file :: "world \<Rightarrow> string \<Rightarrow> message list option \<times> world" where
  "parse_markdown_file w file_path =
     (case read_file w file_path of
        Inr text \<Rightarrow> (Some (parse_content text), w)
      | Inl (Exception e) \<Rightarrow>
          (None, w\<lparr>out := out w @ [LogError (''Error parsing markdown file: '' @ e)]\<rparr>))"

text \<open>
  \<^verbatim>\<open>process_markdown(file_path, model)\<close>. The result is \<open>Inl\<close> an exception that leaves
  the function, or \<open>Inr\<close> the value returned (\<open>None\<close> for Python's \<^verbatim>\<open>None\<close>).
  The \<^verbatim>\<open>try\<close> block covers the call of the client and the rewrite with the response;
  the handler rewrites the file with the error.
\<close>

definition process_markdown ::
  "chat_api \<Rightarrow> world \<Rightarrow> string \<Rightarrow> string option \<Rightarrow> (exn + string option) \<times> world" where
  "process_markdown chat w file_path model_arg =
     (case parse_markdown_file w file_path of
        (None, w1) \<Rightarrow>
          (Inr None,
           w1\<lparr>out := out w1 @ [LogWarning ''Failed to parse markdown file, aborting process'']\<rparr>)
      | (Some parsed, w1) \<Rightarrow>
          (let messages = filter_messages parsed;
               model = (case model_arg of
                          None \<Rightarrow> default_model
                        | Some m \<Rightarrow> if m = [] then default_model else m)
           in case rewrite_file w1 file_path
                     (\<lambda>txt. [strip_control_lines txt, calling_block model]) of
                Inl e \<Rightarrow> (Inl e, w1)
              | Inr w2 \<Rightarrow>
                  (case init_failure chat of
                     Some e \<Rightarrow> (Inl (Exception e), w2)
                   | None \<Rightarrow>
                      (case (case send_message chat messages model 2000 system_message of
                               Inl e \<Rightarrow> Inl e
                             | Inr response \<Rightarrow>
                                 (case rewrite_file w2 file_path
                                         (\<lambda>txt.
                                            [replace_str (strip txt) (calling_marker model) [],
                                             response_block response]) of
                                    Inl e \<Rightarrow> Inl e
                                  | Inr w3 \<Rightarrow> Inr (response, w3))) of
                         Inr (response, w3) \<Rightarrow> (Inr (Some response), w3)
                       | Inl (Exception e) \<Rightarrow>
                           (case rewrite_file w2 file_path
                                   (\<lambda>txt.
                                      [replace_str (strip txt) (calling_marker model) [],
                                       error_block e]) of
                              Inl e' \<Rightarrow> (Inl e', w2)
                            | Inr w3 \<Rightarrow>
                                (Inr None,
                                 w3\<lparr>out := out w3 @ [LogError (''Error during API call: '' @ e)]\<rparr>))))))"

text \<open>
  \<^verbatim>\<open>main()\<close> on the argument vector \<^verbatim>\<open>sys.argv\<close>: \<open>Inr\<close> the exit status, or \<open>Inl\<close>
  the exception that ends the process.
\<close>

definition main :: "chat_api \<Rightarrow> world \<Rightarrow> string list \<Rightarrow> (exn + nat) \<times> world" where
  "main chat w argv =
     (if length argv < 2 \<or> length argv > 3
      then (Inr 1,
            w\<lparr>out := out w @
                 [LogError ''Invalid number of arguments'',
                  LogError ''Usage: python script_name.py <path_to_markdown_file> [model]'']\<rparr>)
      else
        (case process_markdown chat w (argv ! 1)
                (if length argv = 3 then Some (argv ! 2) else None) of
           (Inl e, w1) \<Rightarrow> (Inl e, w1)
         | (Inr result, w1) \<Rightarrow>
             (if result \<noteq> None \<and> result \<noteq> Some []
              then (Inr 0, w1\<lparr>out := out w1 @ [Print ''Response added to the file successfully.'']\<rparr>)
              else (Inr 0, w1\<lparr>out := out w1 @ [LogError ''Failed to process markdown file.'']\<rparr>))))"

section \<open>Notions of the specification\<close>

text \<open>
  The specification's "roles strictly alternate starting at user": the list of roles is
  user, assistant, user, ... for its whole length.
\<close>

definition alternating_roles :: "string list \<Rightarrow> bool" where
  "alternating_roles rs \<longleftrightarrow>
     rs = map (\<lambda>i. if i mod 2 = 0 then ''user'' else ''assistant'') [0..<length rs]"

text \<open>
  The number of occurrences of a text in another, counted as \<^verbatim>\<open>s.count(sub)\<close> counts
  them: from left to right, without overlap.
\<close>

definition count_str :: "string \<Rightarrow> string \<Rightarrow> nat" where
  "count_str sub s = length (split_str sub s) - 1"


section \<open>Facts about the text primitives\<close>

lemma split_str_not_Nil: "split_str sep s \<noteq> []"
  by (induction sep s rule: split_str.induct) (auto split: list.splits)

lemma join_split_str: "sep \<noteq> [] \<Longrightarrow> join_str sep (split_str sep s) = s"
proof (induction sep s rule: split_str.induct)
  case (1 sep)
  then show ?case by simp
next
  case (2 sep c cs)
  show ?case
  proof (cases "prefix sep (c # cs)")
    case True
    from split_str_not_Nil obtain b bs where bs: "split_str sep (drop (length sep) (c # cs)) = b # bs"
      by (cases "split_str sep (drop (length sep) (c # cs))") auto
    from True 2(3) bs have s: "split_str sep (c # cs) = [] # b # bs" by simp
    from 2 True bs have "join_str sep (b # bs) = drop (length sep) (c # cs)" by simp
    moreover from True have "sep @ drop (length sep) (c # cs) = c # cs"
      by (metis append_eq_conv_conj prefix_def)
    ultimately show ?thesis unfolding s by simp
  next
    case False
    from split_str_not_Nil obtain b bs where bs: "split_str sep cs = b # bs"
      by (cases "split_str sep cs") auto
    from 2 False have "join_str sep (split_str sep cs) = cs" by simp
    with False bs show ?thesis by (cases bs) auto
  qed
qed

lemma split_str_absent: "\<not> sublist sep s \<Longrightarrow> split_str sep s = [s]"
proof (induction s)
  case Nil then show ?case by simp
next
  case (Cons c cs)
  then have "\<not> prefix sep (c # cs)" "\<not> sublist sep cs"
    by (auto simp: sublist_Cons_right)
  with Cons show ?case by simp
qed

lemma split_str_present: "sep \<noteq> [] \<Longrightarrow> sublist sep s \<Longrightarrow> length (split_str sep s) \<ge> 2"
proof (induction s)
  case Nil then show ?case by simp
next
  case (Cons c cs)
  show ?case
  proof (cases "prefix sep (c # cs)")
    case True
    with Cons(2) split_str_not_Nil[of sep "drop (length sep) (c # cs)"] show ?thesis
      by (cases "split_str sep (drop (length sep) (c # cs))") auto
  next
    case False
    with Cons have "sublist sep cs" by (auto simp: sublist_Cons_right)
    with Cons have "2 \<le> length (split_str sep cs)" by simp
    with False show ?thesis by (auto split: list.splits)
  qed
qed

lemma replace_str_concat: "old \<noteq> [] \<Longrightarrow> replace_str s old [] = concat (split_str old s)"
proof (induction old s rule: split_str.induct)
  case (1 sep) then show ?case by simp
next
  case (2 sep c cs)
  show ?case
  proof (cases "prefix sep (c # cs)")
    case True with 2 show ?thesis by simp
  next
    case False
    with 2 split_str_not_Nil[of sep cs] show ?thesis by (auto split: list.splits)
  qed
qed

lemma strip_all_space: "list_all isspace s \<Longrightarrow> strip s = []"
proof -
  assume "list_all isspace s"
  then have "lstrip s = []"
    by (simp add: lstrip_def list_all_iff)
  then show ?thesis by (simp add: strip_def rstrip_def)
qed

lemma strip_eq_Nil_iff: "strip s = [] \<longleftrightarrow> list_all isspace s"
proof
  assume "strip s = []"
  then have "dropWhile isspace (rev (dropWhile isspace s)) = []"
    by (simp add: strip_def lstrip_def rstrip_def)
  then have "\<forall>c \<in> set (dropWhile isspace s). isspace c"
    by (simp add: dropWhile_eq_Nil_conv)
  then have "dropWhile isspace s = []"
    by (metis dropWhile_eq_Nil_conv dropWhile_idem)
  then show "list_all isspace s"
    by (simp add: dropWhile_eq_Nil_conv list_all_iff)
qed (rule strip_all_space)

lemma space_no_delimiter: "list_all isspace s \<Longrightarrow> \<not> sublist ''---'' s"
proof
  assume a: "list_all isspace s" and b: "sublist ''---'' s"
  from b have "set ''---'' \<subseteq> set s" by (rule set_mono_sublist)
  then have "CHR ''-'' \<in> set s" by simp
  with a have "isspace CHR ''-''" by (simp add: list_all_iff)
  then show False by (simp add: isspace_def)
qed

lemma lstrip_space_append: "list_all isspace w \<Longrightarrow> lstrip (w @ s) = lstrip s"
  by (simp add: lstrip_def list_all_iff)

lemma lstrip_nonspace: "s \<noteq> [] \<Longrightarrow> \<not> isspace (hd s) \<Longrightarrow> lstrip (s @ t) = s @ t"
  by (cases s) (simp_all add: lstrip_def)

lemma rstrip_append_space: "list_all isspace w \<Longrightarrow> rstrip (s @ w) = rstrip s"
  by (simp add: rstrip_def list_all_iff dropWhile_append)

lemma rstrip_nonspace: "s \<noteq> [] \<Longrightarrow> \<not> isspace (last s) \<Longrightarrow> rstrip (t @ s) = t @ s"
proof -
  assume a: "s \<noteq> []" "\<not> isspace (last s)"
  then obtain c cs where r: "rev s = c # cs" by (cases "rev s") auto
  then have c: "c = last s" by (metis hd_rev list.sel(1))
  have "dropWhile isspace (rev s @ rev t) = rev s @ rev t"
    unfolding r using a(2) c by simp
  then have "rev (dropWhile isspace (rev (t @ s))) = rev (rev s @ rev t)" by simp
  then show ?thesis by (simp add: rstrip_def)
qed

lemma strip_sandwich:
  assumes "list_all isspace w1" and "list_all isspace w2"
    and "core = [] \<or> (\<not> isspace (hd core) \<and> \<not> isspace (last core))"
  shows "strip (w1 @ core @ w2) = core"
proof (cases "core = []")
  case True
  with assms have "list_all isspace (w1 @ core @ w2)" by simp
  with True show ?thesis by (simp only: strip_all_space)
next
  case False
  with assms(3) have e: "\<not> isspace (hd core)" "\<not> isspace (last core)" by auto
  from assms(1) have "lstrip (w1 @ core @ w2) = lstrip (core @ w2)"
    by (rule lstrip_space_append)
  also from False e(1) have "\<dots> = core @ w2" by (rule lstrip_nonspace)
  finally have "strip (w1 @ core @ w2) = rstrip (core @ w2)" by (simp add: strip_def)
  also from assms(2) have "\<dots> = rstrip core" by (rule rstrip_append_space)
  also from False e rstrip_nonspace [of core "[]"] have "\<dots> = core" by simp
  finally show ?thesis .
qed

lemma last_dropWhile: "dropWhile P xs \<noteq> [] \<Longrightarrow> last (dropWhile P xs) = last xs"
  by (induction xs) (auto split: if_splits)

lemma strip_ends:
  assumes "strip s \<noteq> []"
  shows "\<not> isspace (hd (strip s))" and "\<not> isspace (last (strip s))"
proof -
  let ?t = "dropWhile isspace s"
  let ?u = "dropWhile isspace (rev ?t)"
  have s: "strip s = rev ?u" by (simp add: strip_def lstrip_def rstrip_def)
  with assms have u: "?u \<noteq> []" by simp
  have t: "?t \<noteq> []"
  proof
    assume "?t = []"
    then have "?u = []" by (simp only: rev.simps dropWhile.simps)
    with u show False ..
  qed
  from u have "\<not> isspace (hd ?u)" by (rule hd_dropWhile)
  with u s show "\<not> isspace (last (strip s))" by (simp add: last_rev)
  from u have "last ?u = last (rev ?t)" by (rule last_dropWhile)
  with t have "last ?u = hd ?t" by (simp add: last_rev)
  moreover from t have "\<not> isspace (hd ?t)" by (rule hd_dropWhile)
  ultimately show "\<not> isspace (hd (strip s))" using u s by (simp add: hd_rev)
qed

lemma strip_decomp:
  "\<exists>w1 w2. list_all isspace w1 \<and> list_all isspace w2 \<and> s = w1 @ strip s @ w2"
proof -
  let ?t = "dropWhile isspace s"
  have 1: "s = takeWhile isspace s @ ?t" by simp
  have "rev ?t = takeWhile isspace (rev ?t) @ dropWhile isspace (rev ?t)" by simp
  then have "rev (rev ?t) = rev (takeWhile isspace (rev ?t) @ dropWhile isspace (rev ?t))"
    by (simp only:)
  then have 2: "?t = strip s @ rev (takeWhile isspace (rev ?t))"
    by (simp only: rev_append rev_rev_ident strip_def lstrip_def rstrip_def)
  have "list_all isspace (takeWhile isspace s)"
    by (simp add: list_all_iff) (meson set_takeWhileD)
  moreover have "list_all isspace (rev (takeWhile isspace (rev ?t)))"
    by (simp add: list_all_iff) (meson set_takeWhileD)
  moreover from 1 2 have "s = takeWhile isspace s @ strip s @ rev (takeWhile isspace (rev ?t))"
    by metis
  ultimately show ?thesis by blast
qed


lemma sublist_strip: "sublist x (strip s) \<Longrightarrow> sublist x s"
proof -
  assume a: "sublist x (strip s)"
  from strip_decomp obtain w1 w2 where "s = w1 @ strip s @ w2" by blast
  then have "sublist (strip s) s" by (metis sublist_appendI)
  with a show ?thesis by (rule sublist_order.order_trans)
qed

lemma replace_str_absent: "old \<noteq> [] \<Longrightarrow> \<not> sublist old s \<Longrightarrow> replace_str s old new = s"
proof (induction s)
  case Nil then show ?case by simp
next
  case (Cons c cs)
  then have "\<not> prefix old (c # cs)" "\<not> sublist old cs"
    by (auto simp: sublist_Cons_right)
  with Cons show ?case by simp
qed

lemma split_char_append:
  "c \<notin> set x \<Longrightarrow> split_str [c] (x @ c # rest) = x # split_str [c] rest"
  by (induction x) auto

lemma split_char_absent: "c \<notin> set x \<Longrightarrow> split_str [c] x = [x]"
  by (induction x) auto

lemma split_join_char:
  "xs \<noteq> [] \<Longrightarrow> list_all (\<lambda>x. c \<notin> set x) xs \<Longrightarrow> split_str [c] (join_str [c] xs) = xs"
proof (induction "[c]" xs rule: join_str.induct)
  case 1
  then show ?case by simp
next
  case (2 x)
  then show ?case by (simp add: split_char_absent)
next
  case (3 x y ys)
  then show ?case by (simp add: split_char_append)
qed

lemma split_char_lines: "list_all (\<lambda>x. c \<notin> set x) (split_str [c] s)"
proof (induction s)
  case Nil
  then show ?case by simp
next
  case (Cons d ds)
  then show ?case
    using split_str_not_Nil [of "[c]" ds] by (auto split: list.splits)
qed

lemma comprehension_filter: "[x. x \<leftarrow> xs, P x] = filter P xs"
  by (induction xs) auto

section \<open>Parsing a file without a delimiter\<close>

lemma parse_content_absent:
  "\<not> sublist ''---'' s \<Longrightarrow> parse_content s = [\<lparr>role = ''user'', content = strip s\<rparr>]"
  by (simp add: parse_content_def split_str_absent)

text \<open>
  Claim C7. A text in which \<^verbatim>\<open>---\<close> does not occur parses to exactly one message, of
  role user, whose content is the trimmed text; a text of whitespace only (the empty text
  included) parses to one user message with empty content.
\<close>

theorem parse_without_delimiter:
  "(\<not> sublist ''---'' text \<longrightarrow>
      parse_content text = [\<lparr>role = ''user'', content = strip text\<rparr>]) \<and>
   (list_all isspace text \<longrightarrow>
      parse_content text = [\<lparr>role = ''user'', content = []\<rparr>])"
  by (simp add: parse_content_absent space_no_delimiter strip_all_space)

theorem parse_without_delimiter_witness:
  "\<not> sublist ''---'' ''Hello'' \<and>
   parse_content ''Hello'' = [\<lparr>role = ''user'', content = ''Hello''\<rparr>] \<and>
   list_all isspace '' \<newline>'' \<and>
   parse_content '' \<newline>'' = [\<lparr>role = ''user'', content = []\<rparr>] \<and>
   parse_content [] = [\<lparr>role = ''user'', content = []\<rparr>]"
proof -
  have h1: "\<not> sublist ''---'' ''Hello''" by (simp add: sublist_Cons_right)
  have h2: "list_all isspace '' \<newline>''" by (simp add: isspace_def)
  have h3: "list_all isspace []" by simp
  have s: "strip ''Hello'' = ''Hello''"
    by (simp add: strip_def lstrip_def rstrip_def isspace_def)
  from parse_without_delimiter [of "''Hello''"] h1 s
  have c1: "parse_content ''Hello'' = [\<lparr>role = ''user'', content = ''Hello''\<rparr>]" by simp
  from parse_without_delimiter [of "'' \<newline>''"] h2
  have c2: "parse_content '' \<newline>'' = [\<lparr>role = ''user'', content = []\<rparr>]" by blast
  from parse_without_delimiter [of "[]"] h3
  have c3: "parse_content [] = [\<lparr>role = ''user'', content = []\<rparr>]" by blast
  from h1 c1 h2 c2 c3 show ?thesis by blast
qed

section \<open>Filtering control markers\<close>

text \<open>
  Claim C8. \<^verbatim>\<open>filter_messages\<close> drops a message exactly when its trimmed content is
  one of the nine control markers, and keeps every other message at its place: a message
  \<open>m\<close> anywhere in the list is dropped or kept by that test alone. The content
  \<^verbatim>\<open>c1\<close> is dropped, \<^verbatim>\<open>c1 please\<close> and \<^verbatim>\<open>C1\<close> are kept.
\<close>

theorem filter_messages_exact:
  "filter_messages (before @ m # after) =
     filter_messages before @
     (if strip (content m) \<in> {''cc'', ''c0'', ''c1'', ''c2'', ''c3'', ''c4'', ''c5'', ''c6'', ''c7''}
      then [] else [m]) @
     filter_messages after \<and>
   filter_messages [\<lparr>role = r, content = ''c1''\<rparr>] = [] \<and>
   filter_messages [\<lparr>role = r, content = ''c1 please''\<rparr>] = [\<lparr>role = r, content = ''c1 please''\<rparr>] \<and>
   filter_messages [\<lparr>role = r, content = ''C1''\<rparr>] = [\<lparr>role = r, content = ''C1''\<rparr>]"
  by (simp add: filter_messages_def control_markers_def strip_def lstrip_def rstrip_def isspace_def)

section \<open>Roles of the parsed turns\<close>

lemma upt_0_Suc: "[0..<Suc n] = 0 # map Suc [0..<n]"
  by (simp add: upt_conv_Cons map_Suc_upt del: upt_Suc)

lemma block_messages_indexed:
  "block_messages k blocks =
     map (\<lambda>i. \<lparr>role = (if (k + i) mod 2 = 0 then ''user'' else ''assistant''),
                content = strip (blocks ! i)\<rparr>)
         (filter (\<lambda>i. strip (blocks ! i) \<noteq> []) [0..<length blocks])"
proof (induction blocks arbitrary: k)
  case Nil
  then show ?case by simp
next
  case (Cons b bs)
  have "block_messages (Suc k) bs =
     map (\<lambda>i. \<lparr>role = (if (Suc k + i) mod 2 = 0 then ''user'' else ''assistant''),
                content = strip (bs ! i)\<rparr>)
         (filter (\<lambda>i. strip (bs ! i) \<noteq> []) [0..<length bs])"
    by (rule Cons.IH)
  then show ?case
    by (simp add: upt_0_Suc filter_map comp_def del: upt_Suc)
qed

lemma parse_content_present:
  "sublist ''---'' txt \<Longrightarrow> parse_content txt = block_messages 0 (split_str ''---'' txt)"
  using split_str_present [of "''---''" "txt"] by (simp add: parse_content_def)

text \<open>
  Claim C1, as amended. For a text in which \<^verbatim>\<open>---\<close> occurs, the messages returned are
  those of the blocks that are not empty after trimming, in order, and the role of each is
  user when the index of its block among all blocks (the dropped ones counted) is even and
  assistant when it is odd. When no block is empty after trimming, the roles strictly
  alternate starting at user.
\<close>

theorem roles_follow_block_index:
  "sublist ''---'' txt \<Longrightarrow>
     parse_content txt =
       map (\<lambda>i. \<lparr>role = (if i mod 2 = 0 then ''user'' else ''assistant''),
                  content = strip (split_str ''---'' txt ! i)\<rparr>)
           (filter (\<lambda>i. strip (split_str ''---'' txt ! i) \<noteq> [])
              [0..<length (split_str ''---'' txt)]) \<and>
     (list_all (\<lambda>b. strip b \<noteq> []) (split_str ''---'' txt) \<longrightarrow>
        alternating_roles (map role (parse_content txt)))"
proof -
  let ?bs = "split_str ''---'' txt"
  assume "sublist ''---'' txt"
  then have p: "parse_content txt =
           map (\<lambda>i. \<lparr>role = (if i mod 2 = 0 then ''user'' else ''assistant''),
                      content = strip (?bs ! i)\<rparr>)
               (filter (\<lambda>i. strip (?bs ! i) \<noteq> []) [0..<length ?bs])"
    by (simp add: parse_content_present block_messages_indexed)
  have "alternating_roles (map role (parse_content txt))"
    if "list_all (\<lambda>b. strip b \<noteq> []) ?bs"
  proof -
    from that have "filter (\<lambda>i. strip (?bs ! i) \<noteq> []) [0..<length ?bs] = [0..<length ?bs]"
      by (simp add: list_all_iff filter_id_conv)
    with p show ?thesis
      by (simp add: alternating_roles_def comp_def)
  qed
  with p show ?thesis by blast
qed

theorem roles_follow_block_index_witness:
  "sublist ''---'' ''Q1\<newline>---\<newline>A1\<newline>---\<newline>Q2'' \<and>
   list_all (\<lambda>b. strip b \<noteq> []) (split_str ''---'' ''Q1\<newline>---\<newline>A1\<newline>---\<newline>Q2'') \<and>
   alternating_roles (map role (parse_content ''Q1\<newline>---\<newline>A1\<newline>---\<newline>Q2'')) \<and>
   map role (parse_content ''Q1\<newline>---\<newline>A1\<newline>---\<newline>Q2'') = [''user'', ''assistant'', ''user'']"
proof -
  let ?t = "''Q1\<newline>---\<newline>A1\<newline>---\<newline>Q2''"
  have h1: "sublist ''---'' ?t" by code_simp
  have h2: "list_all (\<lambda>b. strip b \<noteq> []) (split_str ''---'' ?t)" by code_simp
  from roles_follow_block_index [OF h1] h2
  have c: "alternating_roles (map role (parse_content ?t))" by blast
  then have "map role (parse_content ?t) =
      map (\<lambda>i. if i mod 2 = 0 then ''user'' else ''assistant'') [0..<length (map role (parse_content ?t))]"
    by (simp only: alternating_roles_def)
  moreover have "length (map role (parse_content ?t)) = 3" by code_simp
  moreover have "map (\<lambda>i. if i mod 2 = 0 then ''user'' else ''assistant'') [0..<3]
      = [''user'', ''assistant'', ''user'']" by code_simp
  ultimately have r: "map role (parse_content ?t) = [''user'', ''assistant'', ''user'']"
    by (simp only:)
  from h1 h2 c r show ?thesis by blast
qed

text \<open>
  Claim C1 as stated fails: in \<^verbatim>\<open>Q1\n---\n\n---\nQ2\<close> the middle block is empty and is
  dropped, and both remaining messages have role user.
\<close>

theorem roles_do_not_alternate:
  "sublist ''---'' ''Q1\<newline>---\<newline>\<newline>---\<newline>Q2'' \<and>
   map role (parse_content ''Q1\<newline>---\<newline>\<newline>---\<newline>Q2'') = [''user'', ''user''] \<and>
   \<not> alternating_roles (map role (parse_content ''Q1\<newline>---\<newline>\<newline>---\<newline>Q2''))"
  by code_simp

section \<open>Inserting the placeholder\<close>

text \<open>
  Claim C10. The rewrite that announces the call trims the whole content first, keeps of
  the lines of the trimmed content exactly those whose trimmed text is not a control
  marker, in their order and unchanged (splitting what was written at the line breaks
  gives the kept lines back), and appends the placeholder block for the model after them.
  When no line is kept, the placeholder block is all that is written.
\<close>

theorem insert_placeholder_keeps_lines:
  "insert_placeholder txt model =
     join_str ''\<newline>''
       (filter (\<lambda>line. strip line \<notin> {''cc'', ''c0'', ''c1'', ''c2'', ''c3'', ''c4'', ''c5'', ''c6'', ''c7''})
          (split_str ''\<newline>'' (strip txt))) @
     ''\<newline>\<newline>---\<newline>\<newline>Calling '' @ model @ ''...\<newline>'' \<and>
   (filter (\<lambda>line. strip line \<notin> {''cc'', ''c0'', ''c1'', ''c2'', ''c3'', ''c4'', ''c5'', ''c6'', ''c7''})
          (split_str ''\<newline>'' (strip txt)) \<noteq> [] \<longrightarrow>
    split_str ''\<newline>''
      (join_str ''\<newline>''
        (filter (\<lambda>line. strip line \<notin> {''cc'', ''c0'', ''c1'', ''c2'', ''c3'', ''c4'', ''c5'', ''c6'', ''c7''})
          (split_str ''\<newline>'' (strip txt)))) =
    filter (\<lambda>line. strip line \<notin> {''cc'', ''c0'', ''c1'', ''c2'', ''c3'', ''c4'', ''c5'', ''c6'', ''c7''})
          (split_str ''\<newline>'' (strip txt)))"
proof -
  let ?keep = "\<lambda>line. strip line \<notin> {''cc'', ''c0'', ''c1'', ''c2'', ''c3'', ''c4'', ''c5'', ''c6'', ''c7''}"
  let ?kept = "filter ?keep (split_str ''\<newline>'' (strip txt))"
  have 1: "insert_placeholder txt model =
     join_str ''\<newline>'' ?kept @ ''\<newline>\<newline>---\<newline>\<newline>Calling '' @ model @ ''...\<newline>''"
    by (simp add: insert_placeholder_def strip_control_lines_def calling_block_def
          comprehension_filter control_markers_def)
  have "list_all (\<lambda>x. CHR ''\<newline>'' \<notin> set x) (split_str ''\<newline>'' (strip txt))"
    by (rule split_char_lines)
  then have "list_all (\<lambda>x. CHR ''\<newline>'' \<notin> set x) ?kept"
    by (simp add: list_all_iff)
  then have 2: "split_str ''\<newline>'' (join_str ''\<newline>'' ?kept) = ?kept" if "?kept \<noteq> []"
    using that by (rule split_join_char [rotated])
  from 1 2 show ?thesis by blast
qed

theorem insert_placeholder_keeps_lines_witness:
  "filter (\<lambda>line. strip line \<notin> {''cc'', ''c0'', ''c1'', ''c2'', ''c3'', ''c4'', ''c5'', ''c6'', ''c7''})
     (split_str ''\<newline>'' (strip '' \<newline>Q1\<newline> cc \<newline>more\<newline>c1 please\<newline>c7\<newline>\<newline>''))
     = [''Q1'', ''more'', ''c1 please''] \<and>
   split_str ''\<newline>'' (join_str ''\<newline>'' [''Q1'', ''more'', ''c1 please''])
     = [''Q1'', ''more'', ''c1 please''] \<and>
   insert_placeholder '' \<newline>Q1\<newline> cc \<newline>more\<newline>c1 please\<newline>c7\<newline>\<newline>'' ''m''
     = ''Q1\<newline>more\<newline>c1 please\<newline>\<newline>---\<newline>\<newline>Calling m...\<newline>''"
proof -
  let ?t = "'' \<newline>Q1\<newline> cc \<newline>more\<newline>c1 please\<newline>c7\<newline>\<newline>''"
  let ?keep = "\<lambda>line. strip line \<notin> {''cc'', ''c0'', ''c1'', ''c2'', ''c3'', ''c4'', ''c5'', ''c6'', ''c7''}"
  have k: "filter ?keep (split_str ''\<newline>'' (strip ?t)) = [''Q1'', ''more'', ''c1 please'']"
    by code_simp
  note t = insert_placeholder_keeps_lines [of ?t "''m''", unfolded k]
  from t have c1: "split_str ''\<newline>'' (join_str ''\<newline>'' [''Q1'', ''more'', ''c1 please''])
     = [''Q1'', ''more'', ''c1 please'']" by blast
  from t have "insert_placeholder ?t ''m'' =
     join_str ''\<newline>'' [''Q1'', ''more'', ''c1 please''] @
     ''\<newline>\<newline>---\<newline>\<newline>Calling '' @ ''m'' @ ''...\<newline>''" by blast
  then have c2: "insert_placeholder ?t ''m''
     = ''Q1\<newline>more\<newline>c1 please\<newline>\<newline>---\<newline>\<newline>Calling m...\<newline>''" by simp
  from k c1 c2 show ?thesis by blast
qed

section \<open>Resolving the placeholder\<close>

lemma calling_marker_not_Nil: "calling_marker model \<noteq> []"
  by (simp add: calling_marker_def)

subsection \<open>The occurrences of the marker in a file and in its trimmed content\<close>

lemma strip_decomp_leading:
  "\<exists>w2. list_all isspace w2 \<and> s = takeWhile isspace s @ strip s @ w2"
proof -
  let ?t = "dropWhile isspace s"
  have 1: "s = takeWhile isspace s @ ?t" by simp
  have "rev ?t = takeWhile isspace (rev ?t) @ dropWhile isspace (rev ?t)" by simp
  then have "rev (rev ?t) = rev (takeWhile isspace (rev ?t) @ dropWhile isspace (rev ?t))"
    by (simp only:)
  then have 2: "?t = strip s @ rev (takeWhile isspace (rev ?t))"
    by (simp only: rev_append rev_rev_ident strip_def lstrip_def rstrip_def)
  have "list_all isspace (rev (takeWhile isspace (rev ?t)))"
    by (simp add: list_all_iff) (meson set_takeWhileD)
  moreover from 1 2 have "s = takeWhile isspace s @ strip s @ rev (takeWhile isspace (rev ?t))"
    by metis
  ultimately show ?thesis by blast
qed

lemma prefix_append_space:
  assumes "sep \<noteq> []" and "\<not> isspace (last sep)" and "list_all isspace w"
  shows "prefix sep (s @ w) \<longleftrightarrow> prefix sep s"
proof
  assume "prefix sep (s @ w)"
  then consider "prefix sep s" | us where "sep = s @ us" "prefix us w"
    by (auto simp: prefix_append)
  then show "prefix sep s"
  proof cases
    case 1
    then show ?thesis .
  next
    case 2
    show ?thesis
    proof (cases "us = []")
      case True
      with 2 show ?thesis by simp
    next
      case False
      with 2(1) have "last sep = last us" by simp
      moreover from False have "last us \<in> set us" by simp
      moreover from 2(2) have "set us \<subseteq> set w" by (rule set_mono_prefix)
      ultimately have "last sep \<in> set w" by auto
      with assms(3) have "isspace (last sep)" by (simp add: list_all_iff)
      with assms(2) show ?thesis by simp
    qed
  qed
next
  assume "prefix sep s"
  then show "prefix sep (s @ w)" by (rule prefix_prefix)
qed

lemma split_str_space_only:
  assumes "sep \<noteq> []" and "\<not> isspace (last sep)" and "list_all isspace w"
  shows "split_str sep w = [w]"
proof (rule split_str_absent, rule notI)
  assume "sublist sep w"
  then have "set sep \<subseteq> set w" by (rule set_mono_sublist)
  moreover from assms(1) have "last sep \<in> set sep" by simp
  ultimately have "last sep \<in> set w" by auto
  with assms(3) have "isspace (last sep)" by (simp add: list_all_iff)
  with assms(2) show False by simp
qed

lemma split_str_append_space:
  "sep \<noteq> [] \<Longrightarrow> \<not> isspace (last sep) \<Longrightarrow> list_all isspace w \<Longrightarrow>
     split_str sep (s @ w) = butlast (split_str sep s) @ [last (split_str sep s) @ w]"
proof (induction sep s rule: split_str.induct)
  case (1 sep)
  then show ?case by (simp add: split_str_space_only)
next
  case (2 sep d ds)
  from "2.prems" have pe: "prefix sep ((d # ds) @ w) \<longleftrightarrow> prefix sep (d # ds)"
    by (rule prefix_append_space)
  show ?case
  proof (cases "prefix sep (d # ds)")
    case True
    with pe have p: "prefix sep ((d # ds) @ w)" by simp
    from True have "length sep \<le> length (d # ds)" by (rule prefix_length_le)
    then have d: "drop (length sep) ((d # ds) @ w) = drop (length sep) (d # ds) @ w"
      by (simp only: drop_append diff_is_0_eq' drop_0)
    from True 2 have ih: "split_str sep (drop (length sep) (d # ds) @ w) =
        butlast (split_str sep (drop (length sep) (d # ds))) @
        [last (split_str sep (drop (length sep) (d # ds))) @ w]"
      by simp
    from p "2.prems"(1) have "split_str sep ((d # ds) @ w)
        = [] # split_str sep (drop (length sep) ((d # ds) @ w))"
      by simp
    also have "\<dots> = [] # split_str sep (drop (length sep) (d # ds) @ w)"
      by (simp only: d)
    finally have l: "split_str sep ((d # ds) @ w) =
        [] # butlast (split_str sep (drop (length sep) (d # ds))) @
        [last (split_str sep (drop (length sep) (d # ds))) @ w]"
      by (simp only: ih)
    from True "2.prems"(1) have r: "split_str sep (d # ds) = [] # split_str sep (drop (length sep) (d # ds))"
      by simp
    show ?thesis
      unfolding l r using split_str_not_Nil [of sep "drop (length sep) (d # ds)"] by simp
  next
    case False
    with pe have np: "\<not> prefix sep ((d # ds) @ w)" by simp
    from False 2 have ih: "split_str sep (ds @ w) =
        butlast (split_str sep ds) @ [last (split_str sep ds) @ w]"
      by simp
    obtain b bs where bs: "split_str sep ds = b # bs"
      using split_str_not_Nil [of sep ds] by (cases "split_str sep ds") auto
    from False bs have r: "split_str sep (d # ds) = (d # b) # bs" by auto
    from np have "split_str sep ((d # ds) @ w) =
        (case split_str sep (ds @ w) of [] \<Rightarrow> [[d]] | b # bs \<Rightarrow> (d # b) # bs)"
      by auto
    then show ?thesis
      unfolding r ih bs by (cases bs) simp_all
  qed
qed

lemma calling_marker_last: "\<not> isspace (last (calling_marker model))"
  by (simp add: calling_marker_def isspace_def)

lemma calling_marker_split:
  "calling_marker model = ''\<newline>\<newline>'' @ drop 2 (calling_marker model)"
  and calling_marker_visible:
  "takeWhile isspace (calling_marker model @ zs) = ''\<newline>\<newline>''"
  by (simp_all add: calling_marker_def isspace_def)

lemma marker_not_in_leading_space:
  assumes "list_all isspace w" and "w \<noteq> []"
    and "rest = [] \<or> \<not> isspace (hd rest)"
    and "\<not> (suffix ''\<newline>\<newline>'' w \<and> prefix (drop 2 (calling_marker model)) rest)"
  shows "\<not> prefix (calling_marker model) (w @ rest)"
proof
  assume "prefix (calling_marker model) (w @ rest)"
  then obtain zs where zs: "w @ rest = calling_marker model @ zs" by (auto simp: prefix_def)
  from assms(3) have "takeWhile isspace rest = []" by (cases rest) auto
  with assms(1) have "takeWhile isspace (w @ rest) = w"
    by (simp add: takeWhile_append2 list_all_iff)
  with zs have w: "w = ''\<newline>\<newline>''" by (simp only: calling_marker_visible)
  from zs have "w @ rest = ''\<newline>\<newline>'' @ drop 2 (calling_marker model) @ zs"
    using calling_marker_split [of model] by (metis append_assoc)
  with w have "rest = drop 2 (calling_marker model) @ zs" by simp
  then have "prefix (drop 2 (calling_marker model)) rest" by simp
  with w assms(4) show False by simp
qed

lemma split_marker_leading_space:
  "list_all isspace w \<Longrightarrow> rest = [] \<or> \<not> isspace (hd rest) \<Longrightarrow>
   \<not> (suffix ''\<newline>\<newline>'' w \<and> prefix (drop 2 (calling_marker model)) rest) \<Longrightarrow>
     split_str (calling_marker model) (w @ rest) =
       (w @ hd (split_str (calling_marker model) rest)) # tl (split_str (calling_marker model) rest)"
proof (induction w)
  case Nil
  then show ?case using split_str_not_Nil [of "calling_marker model" rest] by simp
next
  case (Cons c w)
  let ?m = "calling_marker model"
  from Cons.prems have "\<not> prefix ?m ((c # w) @ rest)"
    by (intro marker_not_in_leading_space) simp_all
  then have 1: "split_str ?m ((c # w) @ rest) =
      (c # hd (split_str ?m (w @ rest))) # tl (split_str ?m (w @ rest))"
    using split_str_not_Nil [of ?m "w @ rest"] by (auto split: list.splits)
  from Cons.prems(3) have "\<not> (suffix ''\<newline>\<newline>'' w \<and> prefix (drop 2 ?m) rest)"
    by (auto simp: suffix_Cons)
  with Cons.IH Cons.prems(1,2) have "split_str ?m (w @ rest) =
      (w @ hd (split_str ?m rest)) # tl (split_str ?m rest)"
    by simp
  with 1 show ?case by simp
qed

lemma count_marker_strip:
  assumes "\<not> (suffix ''\<newline>\<newline>'' (takeWhile isspace txt) \<and>
              prefix (drop 2 (calling_marker model)) (strip txt))"
  shows "count_str (calling_marker model) txt = count_str (calling_marker model) (strip txt)"
proof -
  let ?m = "calling_marker model"
  let ?w1 = "takeWhile isspace txt"
  let ?p = "split_str ?m (strip txt)"
  from strip_decomp_leading obtain w2
    where w: "list_all isspace w2" "txt = ?w1 @ strip txt @ w2" by blast
  have w1: "list_all isspace ?w1"
    by (simp add: list_all_iff) (meson set_takeWhileD)
  have e: "strip txt = [] \<or> \<not> isspace (hd (strip txt))"
    using strip_ends(1) [of "txt"] by blast
  define q where "q = (?w1 @ hd ?p) # tl ?p"
  from w1 e assms have "split_str ?m (?w1 @ strip txt) = q"
    unfolding q_def by (rule split_marker_leading_space)
  moreover have "split_str ?m ((?w1 @ strip txt) @ w2) =
      butlast (split_str ?m (?w1 @ strip txt)) @ [last (split_str ?m (?w1 @ strip txt)) @ w2]"
    using calling_marker_not_Nil calling_marker_last w(1) by (rule split_str_append_space)
  ultimately have "split_str ?m ((?w1 @ strip txt) @ w2) = butlast q @ [last q @ w2]"
    by (simp only:)
  moreover from w(2) have "txt = (?w1 @ strip txt) @ w2" by simp
  ultimately have "split_str ?m txt = butlast q @ [last q @ w2]" by metis
  moreover have "q \<noteq> []" by (simp add: q_def)
  ultimately have "length (split_str ?m txt) = length q" by simp
  also have "\<dots> = length ?p"
    using split_str_not_Nil [of ?m "strip txt"] by (cases ?p) (simp_all add: q_def)
  finally show ?thesis by (simp add: count_str_def)
qed

subsection \<open>Removing the marker\<close>

text \<open>
  Claim C3, as amended. Leave aside the contents in which the marker text stands at the
  very start behind whitespace only, where trimming cuts the two line breaks that begin
  the marker. For every other content the occurrences of the marker text (counted from
  left to right without overlap) are as many in the content as in the trimmed content;
  the trimmed content is the pieces of its split joined by the marker, and the rewrite
  with a response writes the pieces with every marker between them dropped (all of them,
  none when there is none), followed by the response framed by \<^verbatim>\<open>\n\n---\n\n\<close> on
  both sides.
\<close>

theorem resolveSuccess_removes_every_marker:
  assumes "\<not> (suffix ''\<newline>\<newline>'' (takeWhile isspace txt) \<and>
              prefix (drop 2 (calling_marker model)) (strip txt))"
  shows "count_str (calling_marker model) txt = count_str (calling_marker model) (strip txt) \<and>
         join_str (calling_marker model) (split_str (calling_marker model) (strip txt)) = strip txt \<and>
         resolveSuccess txt model response =
           concat (split_str (calling_marker model) (strip txt)) @
           ''\<newline>\<newline>---\<newline>\<newline>'' @ response @ ''\<newline>\<newline>---\<newline>\<newline>''"
  using assms
  by (simp add: count_marker_strip resolveSuccess_def response_block_def replace_str_concat
        join_split_str calling_marker_not_Nil)

theorem resolveSuccess_removes_every_marker_witness:
  "\<not> (suffix ''\<newline>\<newline>''
        (takeWhile isspace '' A\<newline>\<newline>---\<newline>\<newline>Calling m...B\<newline>\<newline>---\<newline>\<newline>Calling m...\<newline>'') \<and>
      prefix (drop 2 (calling_marker ''m''))
        (strip '' A\<newline>\<newline>---\<newline>\<newline>Calling m...B\<newline>\<newline>---\<newline>\<newline>Calling m...\<newline>'')) \<and>
   count_str (calling_marker ''m'')
     '' A\<newline>\<newline>---\<newline>\<newline>Calling m...B\<newline>\<newline>---\<newline>\<newline>Calling m...\<newline>'' = 2 \<and>
   split_str (calling_marker ''m'')
     (strip '' A\<newline>\<newline>---\<newline>\<newline>Calling m...B\<newline>\<newline>---\<newline>\<newline>Calling m...\<newline>'')
     = [''A'', ''B'', []] \<and>
   resolveSuccess '' A\<newline>\<newline>---\<newline>\<newline>Calling m...B\<newline>\<newline>---\<newline>\<newline>Calling m...\<newline>'' ''m'' ''R''
     = ''AB\<newline>\<newline>---\<newline>\<newline>R\<newline>\<newline>---\<newline>\<newline>''"
proof -
  let ?t = "'' A\<newline>\<newline>---\<newline>\<newline>Calling m...B\<newline>\<newline>---\<newline>\<newline>Calling m...\<newline>''"
  have h: "\<not> (suffix ''\<newline>\<newline>'' (takeWhile isspace ?t) \<and>
      prefix (drop 2 (calling_marker ''m'')) (strip ?t))"
    by code_simp
  have p: "split_str (calling_marker ''m'') (strip ?t) = [''A'', ''B'', []]" by code_simp
  note t = resolveSuccess_removes_every_marker [OF h, of "''R''"]
  from t have "count_str (calling_marker ''m'') ?t = count_str (calling_marker ''m'') (strip ?t)"
    by (rule conjunct1)
  moreover have "count_str (calling_marker ''m'') (strip ?t) = 2" by code_simp
  ultimately have c: "count_str (calling_marker ''m'') ?t = 2" by (rule trans)
  from t have "resolveSuccess ?t ''m'' ''R'' =
      concat (split_str (calling_marker ''m'') (strip ?t)) @
      ''\<newline>\<newline>---\<newline>\<newline>'' @ ''R'' @ ''\<newline>\<newline>---\<newline>\<newline>''"
    by (rule conjunct2 [THEN conjunct2])
  moreover have "concat (split_str (calling_marker ''m'') (strip ?t)) @
      ''\<newline>\<newline>---\<newline>\<newline>'' @ ''R'' @ ''\<newline>\<newline>---\<newline>\<newline>''
      = ''AB\<newline>\<newline>---\<newline>\<newline>R\<newline>\<newline>---\<newline>\<newline>''"
    by code_simp
  ultimately have r: "resolveSuccess ?t ''m'' ''R'' = ''AB\<newline>\<newline>---\<newline>\<newline>R\<newline>\<newline>---\<newline>\<newline>''"
    by (rule trans)
  from h c p r show ?thesis by (intro conjI)
qed

text \<open>
  Claim C3 as stated fails: a content that holds the marker twice loses both occurrences,
  not exactly one.
\<close>

theorem two_markers_both_removed:
  "count_str (calling_marker ''m'')
     ''A\<newline>\<newline>---\<newline>\<newline>Calling m...\<newline>\<newline>---\<newline>\<newline>Calling m...'' = 2 \<and>
   resolveSuccess
     ''A\<newline>\<newline>---\<newline>\<newline>Calling m...\<newline>\<newline>---\<newline>\<newline>Calling m...'' ''m'' ''R''
     = ''A\<newline>\<newline>---\<newline>\<newline>R\<newline>\<newline>---\<newline>\<newline>'' \<and>
   count_str (calling_marker ''m'')
     (resolveSuccess
        ''A\<newline>\<newline>---\<newline>\<newline>Calling m...\<newline>\<newline>---\<newline>\<newline>Calling m...'' ''m'' ''R'') = 0"
  by code_simp

text \<open>
  The contents left aside above: for a blank note the first rewrite leaves the placeholder
  block alone in the file, trimming takes the two line breaks in front of it, the marker
  text is then not found and the placeholder stays in the file next to the response.
\<close>

lemma placeholder_survives_blank_note:
  "insert_placeholder [] ''m'' = ''\<newline>\<newline>---\<newline>\<newline>Calling m...\<newline>'' \<and>
   resolveSuccess (insert_placeholder [] ''m'') ''m'' ''R''
     = ''---\<newline>\<newline>Calling m...\<newline>\<newline>---\<newline>\<newline>R\<newline>\<newline>---\<newline>\<newline>''"
  by code_simp

subsection \<open>Resolving a file that holds no marker\<close>

lemma strip_error_block:
  "strip (strip txt @ error_block e) =
     (if strip txt = [] then [] else strip txt @ ''\<newline>\<newline>'') @
     ''---\<newline>\<newline>Error: '' @ e @ ''\<newline>\<newline>---''"
proof (cases "strip txt = []")
  case True
  have "strip (''\<newline>\<newline>'' @ (''---\<newline>\<newline>Error: '' @ e @ ''\<newline>\<newline>---'') @ ''\<newline>\<newline>'')
      = ''---\<newline>\<newline>Error: '' @ e @ ''\<newline>\<newline>---''"
    by (rule strip_sandwich) (simp_all add: isspace_def)
  with True show ?thesis by (simp add: error_block_def)
next
  case False
  then have "\<not> isspace (hd (strip txt))" by (rule strip_ends)
  with False have
    "strip ([] @ (strip txt @ ''\<newline>\<newline>---\<newline>\<newline>Error: '' @ e @ ''\<newline>\<newline>---'') @ ''\<newline>\<newline>'')
      = strip txt @ ''\<newline>\<newline>---\<newline>\<newline>Error: '' @ e @ ''\<newline>\<newline>---''"
    by (intro strip_sandwich) (simp_all add: isspace_def)
  with False show ?thesis by (simp add: error_block_def)
qed

lemma resolve_absent:
  assumes "\<not> sublist (calling_marker model) txt"
  shows "replace_str (strip txt) (calling_marker model) [] = strip txt"
proof -
  from assms have "\<not> sublist (calling_marker model) (strip txt)"
    using sublist_strip by blast
  with calling_marker_not_Nil show ?thesis by (rule replace_str_absent)
qed

text \<open>
  Claim C4, as amended. When the marker text for the model does not occur in the content,
  both resolving rewrites leave the trimmed content as it is and append their block.
  Resolving with an error twice in a row appends two error blocks after the trimmed
  content, provided the marker text does not occur in the content left by the first
  rewrite either (the second rewrite trims the blank lines that end the first block, and
  those that start it when the content before it is empty).
\<close>

theorem resolve_without_marker:
  "(\<not> sublist (calling_marker model) txt \<longrightarrow>
      resolveSuccess txt model response = strip txt @ response_block response \<and>
      resolveFailure txt model e = strip txt @ error_block e) \<and>
   (\<not> sublist (calling_marker model) txt \<and>
    \<not> sublist (calling_marker model) (resolveFailure txt model e1) \<longrightarrow>
      resolveFailure (resolveFailure txt model e1) model e2 =
        (if strip txt = [] then [] else strip txt @ ''\<newline>\<newline>'') @
        ''---\<newline>\<newline>Error: '' @ e1 @ ''\<newline>\<newline>---'' @ error_block e2)"
proof -
  have one: "resolveSuccess txt model response = strip txt @ response_block response \<and>
      resolveFailure txt model e = strip txt @ error_block e"
    if "\<not> sublist (calling_marker model) txt" for e
    using that by (simp add: resolveSuccess_def resolveFailure_def resolve_absent)
  have two: "resolveFailure (resolveFailure txt model e1) model e2 =
        (if strip txt = [] then [] else strip txt @ ''\<newline>\<newline>'') @
        ''---\<newline>\<newline>Error: '' @ e1 @ ''\<newline>\<newline>---'' @ error_block e2"
    if a: "\<not> sublist (calling_marker model) txt"
      and b: "\<not> sublist (calling_marker model) (resolveFailure txt model e1)"
  proof -
    from a one have r: "resolveFailure txt model e1 = strip txt @ error_block e1" by blast
    from b have "resolveFailure (resolveFailure txt model e1) model e2
        = strip (resolveFailure txt model e1) @ error_block e2"
      by (simp add: resolveFailure_def [of "resolveFailure txt model e1"] resolve_absent)
    then show ?thesis by (simp only: r strip_error_block append_assoc)
  qed
  from one two show ?thesis by blast
qed

theorem resolve_without_marker_witness:
  "\<not> sublist (calling_marker ''m'') '' Hello\<newline>'' \<and>
   resolveSuccess '' Hello\<newline>'' ''m'' ''Hi!'' = ''Hello\<newline>\<newline>---\<newline>\<newline>Hi!\<newline>\<newline>---\<newline>\<newline>'' \<and>
   resolveFailure '' Hello\<newline>'' ''m'' ''timeout''
     = ''Hello\<newline>\<newline>---\<newline>\<newline>Error: timeout\<newline>\<newline>---\<newline>\<newline>'' \<and>
   \<not> sublist (calling_marker ''m'') (resolveFailure '' Hello\<newline>'' ''m'' ''timeout'') \<and>
   resolveFailure (resolveFailure '' Hello\<newline>'' ''m'' ''timeout'') ''m'' ''again''
     = ''Hello\<newline>\<newline>---\<newline>\<newline>Error: timeout\<newline>\<newline>---\<newline>\<newline>---\<newline>\<newline>Error: again\<newline>\<newline>---\<newline>\<newline>''"
proof -
  let ?t = "'' Hello\<newline>''"
  have h1: "\<not> sublist (calling_marker ''m'') ?t" by code_simp
  have h2: "\<not> sublist (calling_marker ''m'') (resolveFailure ?t ''m'' ''timeout'')" by code_simp
  note t = resolve_without_marker [of "''m''" ?t "''Hi!''" "''timeout''" "''timeout''" "''again''"]
  from t h1 have a1: "resolveSuccess ?t ''m'' ''Hi!'' = strip ?t @ response_block ''Hi!''"
    and a2: "resolveFailure ?t ''m'' ''timeout'' = strip ?t @ error_block ''timeout''"
    by blast+
  from t h1 h2 have a3: "resolveFailure (resolveFailure ?t ''m'' ''timeout'') ''m'' ''again'' =
        (if strip ?t = [] then [] else strip ?t @ ''\<newline>\<newline>'') @
        ''---\<newline>\<newline>Error: '' @ ''timeout'' @ ''\<newline>\<newline>---'' @ error_block ''again''"
    by blast
  have e1: "strip ?t @ response_block ''Hi!'' = ''Hello\<newline>\<newline>---\<newline>\<newline>Hi!\<newline>\<newline>---\<newline>\<newline>''"
    by code_simp
  have e2: "strip ?t @ error_block ''timeout''
      = ''Hello\<newline>\<newline>---\<newline>\<newline>Error: timeout\<newline>\<newline>---\<newline>\<newline>''"
    by code_simp
  have e3: "(if strip ?t = [] then [] else strip ?t @ ''\<newline>\<newline>'') @
        ''---\<newline>\<newline>Error: '' @ ''timeout'' @ ''\<newline>\<newline>---'' @ error_block ''again''
      = ''Hello\<newline>\<newline>---\<newline>\<newline>Error: timeout\<newline>\<newline>---\<newline>\<newline>---\<newline>\<newline>Error: again\<newline>\<newline>---\<newline>\<newline>''"
    by code_simp
  from a1 e1 have c1: "resolveSuccess ?t ''m'' ''Hi!'' = ''Hello\<newline>\<newline>---\<newline>\<newline>Hi!\<newline>\<newline>---\<newline>\<newline>''"
    by (rule trans)
  from a2 e2 have c2: "resolveFailure ?t ''m'' ''timeout''
     = ''Hello\<newline>\<newline>---\<newline>\<newline>Error: timeout\<newline>\<newline>---\<newline>\<newline>''"
    by (rule trans)
  from a3 e3 have c3: "resolveFailure (resolveFailure ?t ''m'' ''timeout'') ''m'' ''again''
     = ''Hello\<newline>\<newline>---\<newline>\<newline>Error: timeout\<newline>\<newline>---\<newline>\<newline>---\<newline>\<newline>Error: again\<newline>\<newline>---\<newline>\<newline>''"
    by (rule trans)
  from h1 c1 c2 h2 c3 show ?thesis by blast
qed

text \<open>
  Claim C4 as stated fails: the marker text can be absent from the content and still
  arise where the content meets the first error block. Here the model name holds line
  breaks, the second rewrite finds the marker across that border and removes it, and the
  content that was there before the first rewrite is cut.
\<close>

theorem second_failure_truncates_content:
  "\<not> sublist (calling_marker ''x\<newline>\<newline>---\<newline>\<newline>Error: y'') ''a\<newline>\<newline>---\<newline>\<newline>Calling x'' \<and>
   resolveFailure
     (resolveFailure ''a\<newline>\<newline>---\<newline>\<newline>Calling x'' ''x\<newline>\<newline>---\<newline>\<newline>Error: y'' ''y...'')
     ''x\<newline>\<newline>---\<newline>\<newline>Error: y'' ''z''
     = ''a\<newline>\<newline>---\<newline>\<newline>---\<newline>\<newline>Error: z\<newline>\<newline>---\<newline>\<newline>'' \<and>
   \<not> prefix ''a\<newline>\<newline>---\<newline>\<newline>Calling x''
     (resolveFailure
        (resolveFailure ''a\<newline>\<newline>---\<newline>\<newline>Calling x'' ''x\<newline>\<newline>---\<newline>\<newline>Error: y'' ''y...'')
        ''x\<newline>\<newline>---\<newline>\<newline>Error: y'' ''z'')"
  by code_simp

section \<open>Parsing the file after a response has been written\<close>

subsection \<open>Splitting around a character that is not in the separator\<close>




subsection \<open>Trimming blanks next to a text\<close>




subsection \<open>Messages of a list of blocks\<close>







subsection \<open>The marker at the end of the marked file\<close>



subsection \<open>The blocks of a file that ends with a response block\<close>





section \<open>The driver\<close>

text \<open>Parsing fails exactly when the file cannot be opened and read.\<close>

lemma parse_markdown_file_fails:
  "fst (parse_markdown_file w file_path) = None \<longleftrightarrow> (\<exists>e. files w file_path = Unreadable e)"
  by (cases "files w file_path") (simp_all add: parse_markdown_file_def read_file_def)

text \<open>
  Claim C5. When parsing fails (the file cannot be read), \<^verbatim>\<open>process_markdown\<close> returns
  \<^verbatim>\<open>None\<close>, no file is changed and no \<^verbatim>\<open>file.write\<close> call is made.
\<close>

theorem unreadable_file_untouched:
  "fst (parse_markdown_file w file_path) = None \<Longrightarrow>
     fst (process_markdown chat w file_path model_arg) = Inr None \<and>
     files (snd (process_markdown chat w file_path model_arg)) = files w \<and>
     writes (snd (process_markdown chat w file_path model_arg)) = writes w"
  by (auto simp: process_markdown_def parse_markdown_file_def
           split: sum.splits exn.splits prod.splits option.splits)


theorem unreadable_file_untouched_witness:
  "fst (parse_markdown_file
          \<lparr>files = (\<lambda>p. Unreadable ''No such file''), writes = [], out = []\<rparr> ''note.md'') = None \<and>
   fst (process_markdown \<lparr>init_failure = None, send_message = (\<lambda>ms m n s. Inr ''Hi!'')\<rparr>
          \<lparr>files = (\<lambda>p. Unreadable ''No such file''), writes = [], out = []\<rparr> ''note.md'' None)
     = Inr None \<and>
   writes (snd (process_markdown \<lparr>init_failure = None, send_message = (\<lambda>ms m n s. Inr ''Hi!'')\<rparr>
          \<lparr>files = (\<lambda>p. Unreadable ''No such file''), writes = [], out = []\<rparr> ''note.md'' None))
     = []"
proof -
  let ?w = "\<lparr>files = (\<lambda>p. Unreadable ''No such file''), writes = [], out = []\<rparr>"
  let ?chat = "\<lparr>init_failure = None, send_message = (\<lambda>ms m n s. Inr ''Hi!'')\<rparr>"
  have h: "fst (parse_markdown_file ?w ''note.md'') = None"
    by (simp add: parse_markdown_file_def read_file_def)
  from unreadable_file_untouched [OF h, of ?chat None]
  have "fst (process_markdown ?chat ?w ''note.md'' None) = Inr None"
    and "writes (snd (process_markdown ?chat ?w ''note.md'' None)) = []"
    by simp_all
  with h show ?thesis by blast
qed


text \<open>
  Claim C6. When the file could be marked, the client could be constructed and
  \<^verbatim>\<open>send_message\<close> raises an exception with text \<open>e\<close>, \<^verbatim>\<open>process_markdown\<close> raises
  nothing and returns \<^verbatim>\<open>None\<close>; the file then holds the marked content, as read again,
  resolved with the error block for \<open>e\<close>, the four \<^verbatim>\<open>file.write\<close> calls of the two
  rewrites have been made and the error has been logged. Here \<open>txt\<close> is the text that
  reading the stored file returns.
\<close>

theorem call_failure_is_written:
  assumes "files w file_path = Writable stored"
    and "txt = universal_newlines stored"
    and "init_failure chat = None"
    and "model = (case model_arg of None \<Rightarrow> default_model
                  | Some m \<Rightarrow> if m = [] then default_model else m)"
    and "send_message chat (filter_messages (parse_content txt)) model 2000 system_message
           = Inl (Exception e)"
  shows "process_markdown chat w file_path model_arg =
           (Inr None,
            w\<lparr>files := (files w)(file_path :=
                  Writable (resolveFailure (universal_newlines (insert_placeholder txt model))
                              model e)),
              writes := writes w @
                 [(file_path, strip_control_lines txt),
                  (file_path, calling_block model),
                  (file_path, replace_str (strip (universal_newlines (insert_placeholder txt model)))
                                (calling_marker model) []),
                  (file_path, error_block e)],
              out := out w @ [LogError (''Error during API call: '' @ e)]\<rparr>)"
  using assms
  by (simp add: process_markdown_def parse_markdown_file_def read_file_def rewrite_file_def
        resolveFailure_def insert_placeholder_def Let_def)

theorem call_failure_is_written_witness:
  "fst (process_markdown
          \<lparr>init_failure = None, send_message = (\<lambda>ms m n s. Inl (Exception ''timeout''))\<rparr>
          \<lparr>files = (\<lambda>p. Writable ''Hello''), writes = [], out = []\<rparr> ''note.md'' None) = Inr None \<and>
   files (snd (process_markdown
          \<lparr>init_failure = None, send_message = (\<lambda>ms m n s. Inl (Exception ''timeout''))\<rparr>
          \<lparr>files = (\<lambda>p. Writable ''Hello''), writes = [], out = []\<rparr> ''note.md'' None)) ''note.md''
     = Writable ''Hello\<newline>\<newline>---\<newline>\<newline>Error: timeout\<newline>\<newline>---\<newline>\<newline>''"
proof -
  let ?w = "\<lparr>files = (\<lambda>p. Writable ''Hello''), writes = [], out = []\<rparr>"
  let ?chat = "\<lparr>init_failure = None, send_message = (\<lambda>ms m n s. Inl (Exception ''timeout''))\<rparr>"
  have r: "resolveFailure (universal_newlines (insert_placeholder ''Hello'' default_model))
        default_model ''timeout''
      = ''Hello\<newline>\<newline>---\<newline>\<newline>Error: timeout\<newline>\<newline>---\<newline>\<newline>''"
    by code_simp
  have "process_markdown ?chat ?w ''note.md'' None =
           (Inr None,
            ?w\<lparr>files := (files ?w)(''note.md'' :=
                  Writable (resolveFailure (universal_newlines (insert_placeholder ''Hello'' default_model))
                              default_model ''timeout'')),
              writes := writes ?w @
                 [(''note.md'', strip_control_lines ''Hello''),
                  (''note.md'', calling_block default_model),
                  (''note.md'', replace_str (strip (universal_newlines (insert_placeholder ''Hello'' default_model)))
                                (calling_marker default_model) []),
                  (''note.md'', error_block ''timeout'')],
              out := out ?w @ [LogError (''Error during API call: '' @ ''timeout'')]\<rparr>)"
  proof (rule call_failure_is_written)
    show "''Hello'' = universal_newlines ''Hello''" by code_simp
  qed simp_all
  then show ?thesis by (simp add: r)
qed

text \<open>
  Claim C9. A run of \<^verbatim>\<open>main\<close> on a note \<^verbatim>\<open>Hello\<close> whose call returns the empty
  response: the response block is written into the file, the exit status is 0, and the only
  output is the error record \<^verbatim>\<open>Failed to process markdown file.\<close>; no success line is
  printed, because \<^verbatim>\<open>main\<close> tests the returned text for truth and the empty text is false.
\<close>

theorem empty_response_reported_as_failure:
  "fst (main \<lparr>init_failure = None, send_message = (\<lambda>ms m n s. Inr [])\<rparr>
          \<lparr>files = (\<lambda>p. Writable ''Hello''), writes = [], out = []\<rparr>
          [''obsidian_note_chat.py'', ''note.md'']) = Inr 0 \<and>
   files (snd (main \<lparr>init_failure = None, send_message = (\<lambda>ms m n s. Inr [])\<rparr>
          \<lparr>files = (\<lambda>p. Writable ''Hello''), writes = [], out = []\<rparr>
          [''obsidian_note_chat.py'', ''note.md''])) ''note.md''
     = Writable ''Hello\<newline>\<newline>---\<newline>\<newline>\<newline>\<newline>---\<newline>\<newline>'' \<and>
   out (snd (main \<lparr>init_failure = None, send_message = (\<lambda>ms m n s. Inr [])\<rparr>
          \<lparr>files = (\<lambda>p. Writable ''Hello''), writes = [], out = []\<rparr>
          [''obsidian_note_chat.py'', ''note.md''])) = [LogError ''Failed to process markdown file.'']"
  by code_simp

text \<open>
  With fewer than one or more than two arguments \<^verbatim>\<open>main\<close> logs two error records and
  exits with status 1; no file is read or written.
\<close>

lemma main_wrong_argument_count:
  "length argv < 2 \<or> length argv > 3 \<Longrightarrow>
     main chat w argv =
       (Inr 1,
        w\<lparr>out := out w @
             [LogError ''Invalid number of arguments'',
              LogError ''Usage: python script_name.py <path_to_markdown_file> [model]'']\<rparr>)"
  by (simp add: main_def)

text \<open>
  Otherwise the success line is printed exactly when \<^verbatim>\<open>process_markdown\<close> returns a
  non-empty text.
\<close>

lemma main_success_line:
  "\<not> (length argv < 2 \<or> length argv > 3) \<Longrightarrow>
   process_markdown chat w (argv ! 1) (if length argv = 3 then Some (argv ! 2) else None)
     = (Inr result, w1) \<Longrightarrow>
     main chat w argv =
       (Inr 0,
        w1\<lparr>out := out w1 @
             [if result \<noteq> None \<and> result \<noteq> Some []
              then Print ''Response added to the file successfully.''
              else LogError ''Failed to process markdown file.'']\<rparr>)"
  by (simp add: main_def)

section \<open>The round trip through a successful run\<close>

subsection \<open>Reading back what the script wrote\<close>








subsection \<open>Parsing a text and its trimmed form\<close>








subsection \<open>The file after the response has been written\<close>




subsection \<open>The round trip\<close>




end
